theory Spec2Isabelle
  imports Complex_Main
begin

section \<open>Shallow embedding of selfdrive/controls/lib/events.py\<close>

text \<open>
  The module holds a helper \<open>stotime\<close>, the class \<open>Alert\<close>, the class \<open>Events\<close>
  (the per-tick event log) and the module-level dictionary \<open>EVENTS\<close> (the catalog).
  Python floats are modelled as exact reals, Python ints as \<open>int\<close>, event names
  (raw capnp enum values) as \<open>nat\<close>, event types as the strings of class \<open>ET\<close>.
\<close>

subsection \<open>stotime\<close>

text \<open>One decimal digit, \<open>0 \<le> d < 10\<close>, as its ASCII character.\<close>

definition digit_char :: "nat \<Rightarrow> char" where
  "digit_char d = char_of (48 + d)"

text \<open>The decimal numeral of a natural number, as \<open>str\<close> prints a non-negative int.\<close>

fun str_nat :: "nat \<Rightarrow> string" where
  "str_nat n = (if n < 10 then [digit_char n] else str_nat (n div 10) @ [digit_char (n mod 10)])"

declare str_nat.simps [simp del]

text \<open>
  The format specification \<open>02d\<close>: sign-aware zero padding to a minimum width of two
  characters, the sign counting towards the width.
\<close>

definition fmt_02d :: "int \<Rightarrow> string" where
  "fmt_02d x =
     (if x < 0
      then (let ds = str_nat (nat (- x)) in CHR ''-'' # replicate (1 - length ds) CHR ''0'' @ ds)
      else (let ds = str_nat (nat x) in replicate (2 - length ds) CHR ''0'' @ ds))"

text \<open>
  \<open>stotime\<close> on an integer argument (\<open>int(S)\<close> is then the identity). Python's
  \<open>divmod\<close> is floor division, as \<open>div\<close> and \<open>mod\<close> on \<open>int\<close> are.
\<close>

definition stotime :: "int \<Rightarrow> string" where
  "stotime S0 =
     (if S0 = - 2 then ''?''
      else if S0 = - 1 then ''N/A''
      else if S0 < 0 then ''N/A''
      else
        (let M = 60; H = M * 60;
             h = S0 div H; S1 = S0 mod H;
             m = S1 div M; S2 = S1 mod M
         in if h > 0 then fmt_02d h @ '':'' @ fmt_02d m @ '':'' @ fmt_02d S2
            else fmt_02d m @ '':'' @ fmt_02d S2))"

text \<open>Reading a decimal numeral back: the value a digit string denotes.\<close>

definition digit_val :: "char \<Rightarrow> nat" where
  "digit_val c = of_char c - 48"

definition dec_value :: "string \<Rightarrow> nat" where
  "dec_value cs = foldl (\<lambda>a c. 10 * a + digit_val c) 0 cs"

definition is_digit :: "char \<Rightarrow> bool" where
  "is_digit c = (48 \<le> (of_char c :: nat) \<and> (of_char c :: nat) \<le> 57)"

subsection \<open>Alerts\<close>

text \<open>
  The capnp enums \<open>AlertStatus\<close>, \<open>AlertSize\<close>, \<open>VisualAlert\<close> and \<open>AudibleAlert\<close>
  are declared outside this module; the first two are given with the enumerants the
  module uses, the last two are kept as the enumerant's name.
\<close>

datatype AlertStatus = Status_normal | Status_userPrompt | Status_critical

datatype AlertSize = Size_none | Size_small | Size_mid | Size_full

datatype Priority = LOWEST | LOWER | LOW | MID | HIGH | HIGHEST

text \<open>\<open>Priority\<close> is an \<open>IntEnum\<close>: comparisons are those of the integer values.\<close>

fun Priority_value :: "Priority \<Rightarrow> int" where
  "Priority_value LOWEST = 0"
| "Priority_value LOWER = 1"
| "Priority_value LOW = 2"
| "Priority_value MID = 3"
| "Priority_value HIGH = 4"
| "Priority_value HIGHEST = 5"

record Alert =
  alert_text_1 :: string
  alert_text_2 :: string
  alert_status :: AlertStatus
  alert_size :: AlertSize
  alert_priority :: Priority
  visual_alert :: string
  audible_alert :: string
  duration_sound :: real
  duration_hud_alert :: real
  duration_text :: real
  alert_rate :: real
  creation_delay :: real
  start_time :: real
  alert_type :: string
  event_type :: "string option"

text \<open>\<open>Alert.__init__\<close>: the last three fields start as \<open>0.\<close>, \<open>""\<close> and \<open>None\<close>.\<close>

definition Alert_init ::
  "string \<Rightarrow> string \<Rightarrow> AlertStatus \<Rightarrow> AlertSize \<Rightarrow> Priority \<Rightarrow> string \<Rightarrow> string \<Rightarrow>
   real \<Rightarrow> real \<Rightarrow> real \<Rightarrow> real \<Rightarrow> real \<Rightarrow> Alert" where
  "Alert_init t1 t2 st sz pr va aa ds dh dt ar cd =
     \<lparr>alert_text_1 = t1, alert_text_2 = t2, alert_status = st, alert_size = sz,
      alert_priority = pr, visual_alert = va, audible_alert = aa,
      duration_sound = ds, duration_hud_alert = dh, duration_text = dt,
      alert_rate = ar, creation_delay = cd,
      start_time = 0, alert_type = [], event_type = None\<rparr>"

text \<open>\<open>Alert.__gt__\<close>.\<close>

definition Alert_gt :: "Alert \<Rightarrow> Alert \<Rightarrow> bool" where
  "Alert_gt a alert2 = (Priority_value (alert_priority a) > Priority_value (alert_priority alert2))"

subsection \<open>The catalog and the event log\<close>

datatype error = KeyError | CallbackError

text \<open>
  A value of the inner dictionaries of \<open>EVENTS\<close>: an \<open>Alert\<close> object, or a callable
  applied to the positional arguments \<open>callback_args\<close>, which returns an alert or raises.
\<close>

datatype 'a template = Fixed Alert | Callback "'a list \<Rightarrow> error + Alert"

type_synonym 'a types = "string \<rightharpoonup> 'a template"

type_synonym 'a catalog = "nat \<rightharpoonup> 'a types"

text \<open>
  The state: the three attributes of the \<open>Events\<close> object and the module-level
  dictionary \<open>EVENTS\<close>, whose \<open>Alert\<close> objects are shared and mutable.
\<close>

record 'a state =
  events :: "nat list"
  static_events :: "nat list"
  events_prev :: "nat \<rightharpoonup> int"
  EVENTS :: "'a catalog"

text \<open>
  Constants imported from other modules: \<open>DT_CTRL\<close> (common.realtime) and the
  dictionary \<open>EVENT_NAME\<close>, built from the capnp schema.
\<close>

record env =
  DT_CTRL :: real
  EVENT_NAME :: "nat \<rightharpoonup> string"

text \<open>\<open>Events.__init__\<close>: \<open>dict.fromkeys(EVENTS.keys(), 0)\<close>.\<close>

definition Events_init :: "'a catalog \<Rightarrow> 'a state" where
  "Events_init cat =
     \<lparr>events = [], static_events = [],
      events_prev = (\<lambda>k. case cat k of None \<Rightarrow> None | Some _ \<Rightarrow> Some 0),
      EVENTS = cat\<rparr>"

text \<open>\<open>Events.add\<close>.\<close>

definition add :: "'a state \<Rightarrow> nat \<Rightarrow> bool \<Rightarrow> 'a state" where
  "add s event_name static =
     (let s1 = (if static then s\<lparr>static_events := static_events s @ [event_name]\<rparr> else s)
      in s1\<lparr>events := events s1 @ [event_name]\<rparr>)"

text \<open>\<open>Events.clear\<close>.\<close>

definition clear :: "'a state \<Rightarrow> 'a state" where
  "clear s =
     (let s1 = s\<lparr>events_prev :=
                  (\<lambda>k. case events_prev s k of None \<Rightarrow> None
                        | Some v \<Rightarrow> Some (if k \<in> set (events s) then v + 1 else 0))\<rparr>
      in s1\<lparr>events := static_events s1\<rparr>)"

text \<open>\<open>Events.any\<close>: \<open>EVENTS.get(e, {})\<close> reads an unknown event as one with no types.\<close>

fun any_loop :: "'a catalog \<Rightarrow> string \<Rightarrow> nat list \<Rightarrow> bool" where
  "any_loop cat etype [] = False"
| "any_loop cat etype (e # es) =
     (if (case cat e of None \<Rightarrow> False | Some types \<Rightarrow> types etype \<noteq> None) then True
      else any_loop cat etype es)"

definition any_ev :: "'a state \<Rightarrow> string \<Rightarrow> bool" where
  "any_ev s etype = any_loop (EVENTS s) etype (events s)"

text \<open>\<open>Events.add_from_msg\<close>: each message \<open>e\<close> is given by its \<open>e.name.raw\<close>.\<close>

fun add_from_msg :: "'a state \<Rightarrow> nat list \<Rightarrow> 'a state" where
  "add_from_msg s [] = s"
| "add_from_msg s (e # es) = add_from_msg (s\<lparr>events := events s @ [e]\<rparr>) es"

text \<open>
  \<open>Events.to_msg\<close>: a \<open>CarEvent\<close> message is its name and its boolean fields, all
  false in a new message.
\<close>

record CarEvent =
  name :: nat
  flag :: "string \<Rightarrow> bool"

definition to_msg :: "'a state \<Rightarrow> CarEvent list" where
  "to_msg s =
     map (\<lambda>event_name.
            \<lparr>name = event_name,
             flag = (\<lambda>etype. case EVENTS s event_name of None \<Rightarrow> False
                             | Some types \<Rightarrow> types etype \<noteq> None)\<rparr>)
         (events s)"

subsection \<open>create_alerts\<close>

text \<open>The two assignments that stamp an alert: \<open>alert_type\<close> and \<open>event_type\<close>.\<close>

definition stamp :: "string \<Rightarrow> string \<Rightarrow> Alert \<Rightarrow> Alert" where
  "stamp nm et alert = alert\<lparr>alert_type := nm @ ''/'' @ et, event_type := Some et\<rparr>"

text \<open>
  The inner loop over \<open>event_types\<close> for one event \<open>e\<close>. \<open>types\<close> is the dictionary
  object \<open>EVENTS[e]\<close>; a stamped \<open>Alert\<close> object of the catalog is written back into
  it, an alert made by a callable is a fresh object. An exception leaves the loop with
  the dictionary as mutated so far. Every \<open>Alert\<close> object of \<open>EVENTS\<close> is built in place
  under one key of one event, so an object is only ever stamped with the tag of its own
  key, and the alerts of \<open>ret\<close> (references to these objects) read at the end as they did
  when they were appended.
\<close>

fun create_alerts_inner ::
  "env \<Rightarrow> (nat \<rightharpoonup> int) \<Rightarrow> 'a list \<Rightarrow> nat \<Rightarrow> string list \<Rightarrow> 'a types \<Rightarrow> Alert list \<Rightarrow>
   (error + Alert list) \<times> 'a types" where
  "create_alerts_inner env prev args e [] types ret = (Inr ret, types)"
| "create_alerts_inner env prev args e (et # ets) types ret =
     (case types et of
        None \<Rightarrow> create_alerts_inner env prev args e ets types ret
      | Some tmpl \<Rightarrow>
          (case (case tmpl of Fixed a \<Rightarrow> Inr a | Callback f \<Rightarrow> f args) of
             Inl err \<Rightarrow> (Inl err, types)
           | Inr alert \<Rightarrow>
               (case prev e of
                  None \<Rightarrow> (Inl KeyError, types)
                | Some n \<Rightarrow>
                    if DT_CTRL env * (of_int n + 1) \<ge> creation_delay alert
                    then (case EVENT_NAME env e of
                            None \<Rightarrow> (Inl KeyError, types)
                          | Some nm \<Rightarrow>
                              create_alerts_inner env prev args e ets
                                (case tmpl of
                                   Fixed _ \<Rightarrow> types(et \<mapsto> Fixed (stamp nm et alert))
                                 | Callback _ \<Rightarrow> types)
                                (ret @ [stamp nm et alert]))
                    else create_alerts_inner env prev args e ets types ret)))"

text \<open>The outer loop over \<open>self.events\<close>; \<open>EVENTS[e]\<close> raises on an unknown event.\<close>

fun create_alerts_loop ::
  "env \<Rightarrow> 'a list \<Rightarrow> string list \<Rightarrow> nat list \<Rightarrow> 'a state \<Rightarrow> Alert list \<Rightarrow>
   (error + Alert list) \<times> 'a state" where
  "create_alerts_loop env args event_types [] s ret = (Inr ret, s)"
| "create_alerts_loop env args event_types (e # es) s ret =
     (case EVENTS s e of
        None \<Rightarrow> (Inl KeyError, s)
      | Some types \<Rightarrow>
          (case create_alerts_inner env (events_prev s) args e event_types types ret of
             (Inl err, types') \<Rightarrow> (Inl err, s\<lparr>EVENTS := (EVENTS s)(e \<mapsto> types')\<rparr>)
           | (Inr ret', types') \<Rightarrow>
               create_alerts_loop env args event_types es
                 (s\<lparr>EVENTS := (EVENTS s)(e \<mapsto> types')\<rparr>) ret'))"

text \<open>\<open>Events.create_alerts\<close>; \<open>callback_args=None\<close> stands for the empty list.\<close>

definition create_alerts ::
  "env \<Rightarrow> 'a state \<Rightarrow> string list \<Rightarrow> 'a list option \<Rightarrow> (error + Alert list) \<times> 'a state" where
  "create_alerts env s event_types callback_args =
     create_alerts_loop env
       (case callback_args of None \<Rightarrow> [] | Some args \<Rightarrow> args)
       event_types (events s) s []"

subsection \<open>Notions used to state the properties\<close>

text \<open>
  An alert without its origin tag, and the relations "equal up to origin tags" on
  templates, inner dictionaries and catalogs.
\<close>

definition untag :: "Alert \<Rightarrow> Alert" where
  "untag a = a\<lparr>alert_type := [], event_type := None\<rparr>"

fun same_template :: "'a template \<Rightarrow> 'a template \<Rightarrow> bool" where
  "same_template (Fixed a) (Fixed b) = (untag a = untag b)"
| "same_template (Callback f) (Callback g) = (f = g)"
| "same_template _ _ = False"

definition same_types :: "'a types \<Rightarrow> 'a types \<Rightarrow> bool" where
  "same_types m m' = (\<forall>et. rel_option same_template (m et) (m' et))"

definition same_catalog :: "'a catalog \<Rightarrow> 'a catalog \<Rightarrow> bool" where
  "same_catalog c c' = (\<forall>e. rel_option same_types (c e) (c' e))"

text \<open>
  The alert that event \<open>e\<close> contributes for event type \<open>et\<close>, as a list of at most
  one element, and the alerts of a list of events for a list of event types.
\<close>

definition candidate ::
  "env \<Rightarrow> (nat \<rightharpoonup> int) \<Rightarrow> 'a list \<Rightarrow> 'a types \<Rightarrow> nat \<Rightarrow> string \<Rightarrow> Alert list" where
  "candidate env prev args types e et =
     (case types et of
        None \<Rightarrow> []
      | Some tmpl \<Rightarrow>
          (case (case tmpl of Fixed a \<Rightarrow> Inr a | Callback f \<Rightarrow> f args) of
             Inl _ \<Rightarrow> []
           | Inr alert \<Rightarrow>
               (case prev e of
                  None \<Rightarrow> []
                | Some n \<Rightarrow>
                    if DT_CTRL env * (of_int n + 1) \<ge> creation_delay alert
                    then (case EVENT_NAME env e of None \<Rightarrow> [] | Some nm \<Rightarrow> [stamp nm et alert])
                    else [])))"

definition all_candidates ::
  "env \<Rightarrow> (nat \<rightharpoonup> int) \<Rightarrow> 'a list \<Rightarrow> 'a catalog \<Rightarrow> string list \<Rightarrow> nat list \<Rightarrow> Alert list" where
  "all_candidates env prev args cat event_types es =
     concat (map (\<lambda>e. case cat e of None \<Rightarrow> []
                        | Some types \<Rightarrow> concat (map (candidate env prev args types e) event_types)) es)"

text \<open>
  Sequences of calls on the \<open>Events\<close> object. A call of \<open>create_alerts\<close> that raises
  leaves the state as mutated up to the exception.
\<close>

datatype 'a call =
  Add nat bool | Clear | AddFromMsg "nat list" | CreateAlerts "string list" "'a list option"

fun step :: "env \<Rightarrow> 'a state \<Rightarrow> 'a call \<Rightarrow> 'a state" where
  "step env s (Add e static) = add s e static"
| "step env s Clear = clear s"
| "step env s (AddFromMsg es) = add_from_msg s es"
| "step env s (CreateAlerts ets args) = snd (create_alerts env s ets args)"

fun run :: "env \<Rightarrow> 'a state \<Rightarrow> 'a call list \<Rightarrow> 'a state" where
  "run env s [] = s"
| "run env s (c # cs) = run env (step env s c) cs"

text \<open>The calls that put event \<open>e\<close> into \<open>events\<close>.\<close>

fun raises :: "nat \<Rightarrow> 'a call \<Rightarrow> bool" where
  "raises e (Add e' static) = (e = e')"
| "raises e (AddFromMsg es) = (e \<in> set es)"
| "raises e _ = False"

subsection \<open>A small catalog for concrete runs\<close>

text \<open>
  Two \<open>warning\<close> alerts of the catalog (priorities \<open>LOW\<close> and \<open>HIGH\<close>), an alert with
  a creation delay of 0.3 s, and a callable that raises unless it gets its three
  arguments \<open>CP\<close>, \<open>sm\<close> and \<open>metric\<close>. Event numbers are chosen freely.
\<close>

definition alert_preDriverDistracted :: Alert where
  "alert_preDriverDistracted =
     Alert_init ''Pay Attention'' [] Status_normal Size_small LOW ''none'' ''none''
       0 (1/10) (1/10) 0 0"

definition alert_driverDistracted :: Alert where
  "alert_driverDistracted =
     Alert_init ''DISENGAGE IMMEDIATELY'' ''Driver Distracted'' Status_critical Size_full HIGH
       ''steerRequired'' ''chimeWarningRepeat'' (1/10) (1/10) (1/10) 0 0"

definition alert_delayed :: Alert where
  "alert_delayed =
     Alert_init ''Delayed'' [] Status_normal Size_small LOWEST ''none'' ''none''
       0 0 (2/10) 0 (3/10)"

definition joystick_callback :: "nat list \<Rightarrow> error + Alert" where
  "joystick_callback args =
     (case args of
        [CP, sm, metric] \<Rightarrow>
          Inr (Alert_init ''Joystick Mode'' [] Status_normal Size_mid LOW ''none'' ''none''
                 0 0 (1/10) 0 0)
      | _ \<Rightarrow> Inl CallbackError)"

definition example_EVENTS :: "nat catalog" where
  "example_EVENTS =
     [1 \<mapsto> [''warning'' \<mapsto> Fixed alert_preDriverDistracted],
      2 \<mapsto> [''warning'' \<mapsto> Fixed alert_driverDistracted],
      3 \<mapsto> [''permanent'' \<mapsto> Fixed alert_delayed],
      4 \<mapsto> [''warning'' \<mapsto> Callback joystick_callback]]"

definition example_env :: env where
  "example_env =
     \<lparr>DT_CTRL = 1/100,
      EVENT_NAME = [1 \<mapsto> ''preDriverDistracted'', 2 \<mapsto> ''driverDistracted'',
                    3 \<mapsto> ''delayed'', 4 \<mapsto> ''joystickDebug'']\<rparr>"

text \<open>The event log in which event 3 has been active for \<open>n\<close> ticks before this one.\<close>

definition delayed_state :: "int \<Rightarrow> nat state" where
  "delayed_state n =
     \<lparr>events = [3], static_events = [],
      events_prev = [1 \<mapsto> 0, 2 \<mapsto> 0, 3 \<mapsto> n, 4 \<mapsto> 0],
      EVENTS = example_EVENTS\<rparr>"

section \<open>Properties of stotime\<close>

lemma char_of_48: "char_of (48::nat) = CHR ''0''"
  by code_simp

lemma digit_char_0 [simp]: "digit_char 0 = CHR ''0''"
  by (simp add: digit_char_def char_of_48)

lemma digit_char_neq_0: "0 < d \<Longrightarrow> d < 10 \<Longrightarrow> digit_char d \<noteq> CHR ''0''"
proof
  assume h: "0 < d" "d < 10" and e: "digit_char d = CHR ''0''"
  have "(of_char (digit_char d) :: nat) = (48 + d) mod 256"
    by (simp add: digit_char_def)
  with e h show False by simp
qed

lemma str_nat_small: "n < 10 \<Longrightarrow> str_nat n = [digit_char n]"
  by (simp add: str_nat.simps)

lemma str_nat_two: "10 \<le> n \<Longrightarrow> n < 100 \<Longrightarrow> str_nat n = [digit_char (n div 10), digit_char (n mod 10)]"
  by (subst str_nat.simps) (simp add: str_nat_small)

lemma str_nat_not_Nil: "str_nat n \<noteq> []"
  by (subst str_nat.simps) simp

lemma length_str_nat_ge3: "100 \<le> n \<Longrightarrow> 3 \<le> length (str_nat n)"
proof -
  assume h: "100 \<le> n"
  have a: "str_nat n = str_nat (n div 10) @ [digit_char (n mod 10)]"
    using h by (subst str_nat.simps) simp
  have "10 \<le> n div 10" using h by simp
  then have b: "str_nat (n div 10) = str_nat (n div 10 div 10) @ [digit_char (n div 10 mod 10)]"
    by (subst str_nat.simps) simp
  show ?thesis using str_nat_not_Nil [of "n div 10 div 10"]
    by (cases "str_nat (n div 10 div 10)") (simp_all add: a b)
qed

lemma fmt_02d_small: "0 \<le> x \<Longrightarrow> x < 100 \<Longrightarrow>
  fmt_02d x = [digit_char (nat x div 10), digit_char (nat x mod 10)]"
proof (cases "x < 10")
  case True
  assume "0 \<le> x" "x < 100"
  with True show ?thesis by (simp add: fmt_02d_def str_nat_small)
next
  case False
  assume "0 \<le> x" "x < 100"
  with False show ?thesis by (simp add: fmt_02d_def str_nat_two)
qed

lemma fmt_02d_large: "100 \<le> x \<Longrightarrow> fmt_02d x = str_nat (nat x)"
proof -
  assume h: "100 \<le> x"
  then have "3 \<le> length (str_nat (nat x))" by (intro length_str_nat_ge3) simp
  then have "2 - length (str_nat (nat x)) = 0" by simp
  with h show ?thesis by (simp add: fmt_02d_def Let_def)
qed

lemma is_digit_digit_char: "d < 10 \<Longrightarrow> is_digit (digit_char d)"
  by (simp add: is_digit_def digit_char_def)

lemma digit_val_digit_char: "d < 10 \<Longrightarrow> digit_val (digit_char d) = d"
  by (simp add: digit_val_def digit_char_def)

lemma str_nat_digits: "list_all is_digit (str_nat n)"
proof (induction n rule: str_nat.induct)
  case (1 n)
  then show ?case by (subst str_nat.simps) (simp add: is_digit_digit_char)
qed

lemma dec_value_snoc: "dec_value (cs @ [c]) = 10 * dec_value cs + digit_val c"
  by (simp add: dec_value_def)

lemma dec_value_str_nat: "dec_value (str_nat n) = n"
proof (induction n rule: str_nat.induct)
  case (1 n)
  show ?case
  proof (cases "n < 10")
    case True
    then show ?thesis by (simp add: str_nat_small dec_value_def digit_val_digit_char)
  next
    case False
    then have "str_nat n = str_nat (n div 10) @ [digit_char (n mod 10)]"
      by (subst str_nat.simps) simp
    with False 1 show ?thesis by (simp add: dec_value_snoc digit_val_digit_char)
  qed
qed

lemma hd_str_nat: "0 < n \<Longrightarrow> hd (str_nat n) \<noteq> CHR ''0''"
proof (induction n rule: str_nat.induct)
  case (1 n)
  show ?case
  proof (cases "n < 10")
    case True
    with 1(2) show ?thesis by (simp add: str_nat_small digit_char_neq_0)
  next
    case False
    then have e: "str_nat n = str_nat (n div 10) @ [digit_char (n mod 10)]"
      by (subst str_nat.simps) simp
    have "str_nat (n div 10) \<noteq> []" by (rule str_nat_not_Nil)
    with False 1 e show ?thesis by simp
  qed
qed

lemma mod_3600_split: "(S::int) mod 3600 = 60 * (S div 60 mod 60) + S mod 60"
  using zmod_zmult2_eq [of 60 S 60] by simp

lemma mod_3600_div_60: "(S::int) mod 3600 div 60 = S div 60 mod 60"
  by (simp add: mod_3600_split)

lemma digit_char_numerals:
  "digit_char (Suc 0) = CHR ''1''" "digit_char 1 = CHR ''1''" "digit_char 2 = CHR ''2''" "digit_char 3 = CHR ''3''"
  "digit_char 4 = CHR ''4''" "digit_char 5 = CHR ''5''" "digit_char 6 = CHR ''6''"
  "digit_char 7 = CHR ''7''" "digit_char 8 = CHR ''8''" "digit_char 9 = CHR ''9''"
  by code_simp+

lemma fmt_02d_digits: "0 \<le> x \<Longrightarrow> list_all is_digit (fmt_02d x)"
proof (cases "x < 100")
  case True
  assume "0 \<le> x"
  with True show ?thesis by (simp add: fmt_02d_small is_digit_digit_char)
next
  case False
  then show ?thesis by (simp add: fmt_02d_large str_nat_digits)
qed

lemma fmt_02d_value: "0 \<le> x \<Longrightarrow> dec_value (fmt_02d x) = nat x"
proof (cases "x < 100")
  case True
  assume "0 \<le> x"
  with True show ?thesis by (simp add: fmt_02d_small dec_value_def digit_val_digit_char)
next
  case False
  then show ?thesis by (simp add: fmt_02d_large dec_value_str_nat)
qed

lemma fmt_02d_length: "0 \<le> x \<Longrightarrow> 2 \<le> length (fmt_02d x)"
proof (cases "x < 100")
  case True
  assume "0 \<le> x"
  with True show ?thesis by (simp add: fmt_02d_small)
next
  case False
  then have "3 \<le> length (str_nat (nat x))" by (intro length_str_nat_ge3) simp
  with False show ?thesis by (simp add: fmt_02d_large)
qed

lemma fmt_02d_hd: "0 \<le> x \<Longrightarrow> 2 < length (fmt_02d x) \<Longrightarrow> hd (fmt_02d x) \<noteq> CHR ''0''"
proof (cases "x < 100")
  case True
  assume "0 \<le> x" "2 < length (fmt_02d x)"
  with True show ?thesis by (simp add: fmt_02d_small)
next
  case False
  then have "0 < nat x" by simp
  then have "hd (str_nat (nat x)) \<noteq> CHR ''0''" by (rule hd_str_nat)
  with False show ?thesis by (simp add: fmt_02d_large)
qed

text \<open>
  Claim C10. For an integer \<open>S\<close> with \<open>0 \<le> S < 3600\<close>, \<open>stotime S\<close> is the two digits
  of \<open>S div 60\<close>, a colon and the two digits of \<open>S mod 60\<close>. For \<open>S \<ge> 3600\<close> it is
  the hours \<open>S div 3600\<close> zero-padded to at least two digits (a digit string of that
  value, of length two or with no leading zero), then the two digits of the minutes
  \<open>S div 60 mod 60\<close> and of the seconds \<open>S mod 60\<close>, separated by colons. For \<open>-2\<close> it is
  \<open>?\<close>, for every other negative integer \<open>N/A\<close>.
\<close>

theorem stotime_format:
  "(0 \<le> S \<and> S < 3600 \<longrightarrow>
      stotime S = [digit_char (nat (S div 60) div 10), digit_char (nat (S div 60) mod 10),
                   CHR '':'',
                   digit_char (nat (S mod 60) div 10), digit_char (nat (S mod 60) mod 10)])
   \<and> (3600 \<le> S \<longrightarrow>
      stotime S = fmt_02d (S div 3600) @
                  [CHR '':'',
                   digit_char (nat (S div 60 mod 60) div 10), digit_char (nat (S div 60 mod 60) mod 10),
                   CHR '':'',
                   digit_char (nat (S mod 60) div 10), digit_char (nat (S mod 60) mod 10)]
      \<and> list_all is_digit (fmt_02d (S div 3600))
      \<and> dec_value (fmt_02d (S div 3600)) = nat (S div 3600)
      \<and> 2 \<le> length (fmt_02d (S div 3600))
      \<and> (2 < length (fmt_02d (S div 3600)) \<longrightarrow> hd (fmt_02d (S div 3600)) \<noteq> CHR ''0''))
   \<and> stotime (- 2) = ''?''
   \<and> (S < 0 \<and> S \<noteq> - 2 \<longrightarrow> stotime S = ''N/A'')"
proof -
  have c1: "0 \<le> S \<and> S < 3600 \<longrightarrow>
      stotime S = [digit_char (nat (S div 60) div 10), digit_char (nat (S div 60) mod 10),
                   CHR '':'',
                   digit_char (nat (S mod 60) div 10), digit_char (nat (S mod 60) mod 10)]"
  proof
    assume h: "0 \<le> S \<and> S < 3600"
    then have d: "S div 3600 = 0" and m: "S mod 3600 = S" by simp_all
    have "0 \<le> S div 60" "S div 60 < 100" "0 \<le> S mod 60" "S mod 60 < 100" using h by auto
    then show "stotime S = [digit_char (nat (S div 60) div 10), digit_char (nat (S div 60) mod 10),
                   CHR '':'',
                   digit_char (nat (S mod 60) div 10), digit_char (nat (S mod 60) mod 10)]"
      using h by (simp add: stotime_def Let_def d m fmt_02d_small)
  qed
  have c2: "3600 \<le> S \<longrightarrow>
      stotime S = fmt_02d (S div 3600) @
                  [CHR '':'',
                   digit_char (nat (S div 60 mod 60) div 10), digit_char (nat (S div 60 mod 60) mod 10),
                   CHR '':'',
                   digit_char (nat (S mod 60) div 10), digit_char (nat (S mod 60) mod 10)]"
  proof
    assume h: "3600 \<le> S"
    then have d: "0 < S div 3600" by simp
    have m: "S mod 3600 div 60 = S div 60 mod 60" by (rule mod_3600_div_60)
    have s: "S mod 3600 mod 60 = S mod 60" by (simp add: mod_mod_cancel)
    have "0 \<le> S div 60 mod 60" "S div 60 mod 60 < 100" "0 \<le> S mod 60" "S mod 60 < 100"
      by (simp_all add: pos_mod_bound [THEN less_trans])
    then show "stotime S = fmt_02d (S div 3600) @
                  [CHR '':'',
                   digit_char (nat (S div 60 mod 60) div 10), digit_char (nat (S div 60 mod 60) mod 10),
                   CHR '':'',
                   digit_char (nat (S mod 60) div 10), digit_char (nat (S mod 60) mod 10)]"
      using h d by (simp add: stotime_def Let_def m s fmt_02d_small)
  qed
  have c3: "3600 \<le> S \<longrightarrow>
      list_all is_digit (fmt_02d (S div 3600))
      \<and> dec_value (fmt_02d (S div 3600)) = nat (S div 3600)
      \<and> 2 \<le> length (fmt_02d (S div 3600))
      \<and> (2 < length (fmt_02d (S div 3600)) \<longrightarrow> hd (fmt_02d (S div 3600)) \<noteq> CHR ''0'')"
  proof
    assume h: "3600 \<le> S"
    then have d: "0 \<le> S div 3600" by simp
    show "list_all is_digit (fmt_02d (S div 3600))
      \<and> dec_value (fmt_02d (S div 3600)) = nat (S div 3600)
      \<and> 2 \<le> length (fmt_02d (S div 3600))
      \<and> (2 < length (fmt_02d (S div 3600)) \<longrightarrow> hd (fmt_02d (S div 3600)) \<noteq> CHR ''0'')"
      using fmt_02d_digits [OF d] fmt_02d_value [OF d] fmt_02d_length [OF d] fmt_02d_hd [OF d]
      by blast
  qed
  have c4: "stotime (- 2) = ''?''" by (simp add: stotime_def)
  have c5: "S < 0 \<and> S \<noteq> - 2 \<longrightarrow> stotime S = ''N/A''" by (simp add: stotime_def)
  show ?thesis using c1 c2 c3 c4 c5 by blast
qed

theorem stotime_format_witness:
  "stotime 75 = ''01:15'' \<and> stotime 3725 = ''01:02:05'' \<and> stotime (- 5) = ''N/A''
   \<and> stotime (- 2) = ''?''"
  using stotime_format [of 75] stotime_format [of 3725] stotime_format [of "- 5"]
  by (simp add: fmt_02d_small digit_char_numerals)

section \<open>Properties of create_alerts\<close>

lemma untag_stamp [simp]: "untag (stamp nm et a) = untag a"
  by (simp add: untag_def stamp_def)

lemma stamp_untag_cong: "untag a = untag b \<Longrightarrow> stamp nm et a = stamp nm et b"
  by (cases a, cases b) (simp add: untag_def stamp_def)

lemma creation_delay_untag_cong: "untag a = untag b \<Longrightarrow> creation_delay a = creation_delay b"
  by (cases a, cases b) (simp add: untag_def)

lemma same_template_refl [simp]: "same_template t t"
  by (cases t) simp_all

lemma same_template_sym: "same_template t u \<Longrightarrow> same_template u t"
  by (cases t; cases u) simp_all

lemma same_template_trans: "same_template t u \<Longrightarrow> same_template u v \<Longrightarrow> same_template t v"
  by (cases t; cases u; cases v) simp_all

lemma same_types_refl [simp]: "same_types m m"
  by (simp add: same_types_def option.rel_refl)

lemma same_types_trans: "same_types m m' \<Longrightarrow> same_types m' m'' \<Longrightarrow> same_types m m''"
  unfolding same_types_def
proof
  fix et
  assume a: "\<forall>et. rel_option same_template (m et) (m' et)"
    and b: "\<forall>et. rel_option same_template (m' et) (m'' et)"
  from a have a': "rel_option same_template (m et) (m' et)" by blast
  from b have b': "rel_option same_template (m' et) (m'' et)" by blast
  from a' b' show "rel_option same_template (m et) (m'' et)"
    by (cases "m et"; cases "m' et"; cases "m'' et") (auto intro: same_template_trans)
qed

lemma same_types_sym: "same_types m m' \<Longrightarrow> same_types m' m"
  unfolding same_types_def
proof
  fix et
  assume a: "\<forall>et. rel_option same_template (m et) (m' et)"
  then have "rel_option same_template (m et) (m' et)" by blast
  then show "rel_option same_template (m' et) (m et)"
    by (cases "m et"; cases "m' et") (auto intro: same_template_sym)
qed

lemma same_types_update:
  "same_types m m' \<Longrightarrow> same_template t t' \<Longrightarrow> same_types (m(et \<mapsto> t)) (m'(et \<mapsto> t'))"
  by (simp add: same_types_def)

lemma same_types_lookup:
  "same_types m m' \<Longrightarrow> rel_option same_template (m et) (m' et)"
  by (simp add: same_types_def)

lemma inner_skip:
  "types et = None \<Longrightarrow>
   create_alerts_inner env prev args e (et # ets) types ret =
   create_alerts_inner env prev args e ets types ret"
  by simp

lemma inner_cong:
  "same_types m m' \<Longrightarrow>
   fst (create_alerts_inner env prev args e ets m ret) =
   fst (create_alerts_inner env prev args e ets m' ret)"
proof (induction ets arbitrary: m m' ret)
  case Nil
  show ?case by simp
next
  case (Cons et ets)
  have r: "rel_option same_template (m et) (m' et)"
    using Cons.prems by (rule same_types_lookup)
  show ?case
  proof (cases "m et")
    case None
    with r have "m' et = None" by (cases "m' et") simp_all
    with None Cons show ?thesis by simp
  next
    case (Some t)
    with r obtain t' where t': "m' et = Some t'" and st: "same_template t t'"
      by (cases "m' et") simp_all
    show ?thesis
    proof (cases t)
      case (Fixed a)
      with st obtain b where b: "t' = Fixed b" and ab: "untag a = untag b"
        by (cases t') simp_all
      have cd: "creation_delay a = creation_delay b" using ab by (rule creation_delay_untag_cong)
      have sm: "\<And>nm. same_types (m(et \<mapsto> Fixed (stamp nm et a))) (m'(et \<mapsto> Fixed (stamp nm et b)))"
        using Cons.prems ab by (intro same_types_update) simp_all
      have se: "\<And>nm. stamp nm et a = stamp nm et b" using ab by (rule stamp_untag_cong)
      have ih1: "\<And>r. fst (create_alerts_inner env prev args e ets m r) =
                     fst (create_alerts_inner env prev args e ets m' r)"
        by (rule Cons.IH [OF Cons.prems])
      have ih2: "\<And>nm r. fst (create_alerts_inner env prev args e ets (m(et \<mapsto> Fixed (stamp nm et b))) r) =
                     fst (create_alerts_inner env prev args e ets (m'(et \<mapsto> Fixed (stamp nm et b))) r)"
        using Cons.IH [OF sm] by (simp only: se)
      show ?thesis
        by (simp add: Some t' Fixed b cd se ih1 ih2 split: option.splits)
    next
      case (Callback f)
      with st have b: "t' = Callback f" by (cases t') simp_all
      have ih1: "\<And>r. fst (create_alerts_inner env prev args e ets m r) =
                     fst (create_alerts_inner env prev args e ets m' r)"
        by (rule Cons.IH [OF Cons.prems])
      show ?thesis
        by (simp add: Some t' Callback b ih1 split: option.splits sum.splits)
    qed
  qed
qed

lemma inner_same: "same_types m (snd (create_alerts_inner env prev args e ets m ret))"
proof (induction ets arbitrary: m ret)
  case Nil
  show ?case by simp
next
  case (Cons et ets)
  show ?case
  proof (cases "m et")
    case None
    with Cons show ?thesis by simp
  next
    case (Some t)
    show ?thesis
    proof (cases t)
      case (Fixed a)
      have sm: "\<And>nm. same_types m (m(et \<mapsto> Fixed (stamp nm et a)))"
        by (simp add: same_types_def Some Fixed option.rel_refl)
      have ih2: "\<And>nm r. same_types m (snd (create_alerts_inner env prev args e ets (m(et \<mapsto> Fixed (stamp nm et a))) r))"
        using same_types_trans [OF sm Cons.IH] .
      show ?thesis
        by (simp add: Some Fixed ih2 Cons.IH split: option.splits)
    next
      case (Callback f)
      show ?thesis
        by (simp add: Some Callback Cons.IH split: option.splits sum.splits)
    qed
  qed
qed


lemma candidate_cong:
  assumes "same_types m m'"
  shows "candidate env prev args m e et = candidate env prev args m' e et"
proof -
  have r: "rel_option same_template (m et) (m' et)"
    using assms by (rule same_types_lookup)
  show ?thesis
  proof (cases "m et")
    case None
    with r have "m' et = None" by (cases "m' et") simp_all
    with None show ?thesis by (simp add: candidate_def)
  next
    case (Some t)
    with r obtain t' where t': "m' et = Some t'" and st: "same_template t t'"
      by (cases "m' et") simp_all
    show ?thesis
    proof (cases t)
      case (Fixed a)
      with st obtain b where b: "t' = Fixed b" and ab: "untag a = untag b"
        by (cases t') simp_all
      have cd: "creation_delay a = creation_delay b" using ab by (rule creation_delay_untag_cong)
      have se: "\<And>nm. stamp nm et a = stamp nm et b" using ab by (rule stamp_untag_cong)
      show ?thesis by (simp add: candidate_def Some t' Fixed b cd se split: option.splits)
    next
      case (Callback f)
      with st have b: "t' = Callback f" by (cases t') simp_all
      show ?thesis by (simp add: candidate_def Some t' Callback b)
    qed
  qed
qed

lemma inner_Inr:
  "fst (create_alerts_inner env prev args e ets m ret) = Inr r \<Longrightarrow>
   r = ret @ concat (map (candidate env prev args m e) ets)"
proof (induction ets arbitrary: m ret)
  case Nil
  then show ?case by simp
next
  case (Cons et ets)
  show ?case
  proof (cases "m et")
    case None
    with Cons.prems have "fst (create_alerts_inner env prev args e ets m ret) = Inr r" by simp
    then have "r = ret @ concat (map (candidate env prev args m e) ets)" by (rule Cons.IH)
    moreover have "candidate env prev args m e et = []" using None by (simp add: candidate_def)
    ultimately show ?thesis by simp
  next
    case (Some t)
    show ?thesis
    proof (cases t)
      case (Fixed a)
      show ?thesis
      proof (cases "prev e")
        case None
        with Cons.prems Some Fixed show ?thesis by simp
      next
        case n: (Some n)
        show ?thesis
        proof (cases "DT_CTRL env * (of_int n + 1) \<ge> creation_delay a")
          case False
          with Cons.prems Some Fixed n
          have "fst (create_alerts_inner env prev args e ets m ret) = Inr r" by simp
          then have "r = ret @ concat (map (candidate env prev args m e) ets)" by (rule Cons.IH)
          moreover have "candidate env prev args m e et = []"
            using False Some Fixed n by (simp add: candidate_def)
          ultimately show ?thesis by simp
        next
          case True
          show ?thesis
          proof (cases "EVENT_NAME env e")
            case None
            with Cons.prems Some Fixed n True show ?thesis by simp
          next
            case nm: (Some nm)
            let ?m' = "m(et \<mapsto> Fixed (stamp nm et a))"
            have sm: "same_types m ?m'"
              by (simp add: same_types_def Some Fixed option.rel_refl)
            from Cons.prems Some Fixed n True nm
            have "fst (create_alerts_inner env prev args e ets ?m' (ret @ [stamp nm et a])) = Inr r"
              by simp
            then have "r = (ret @ [stamp nm et a]) @ concat (map (candidate env prev args ?m' e) ets)"
              by (rule Cons.IH)
            moreover have "candidate env prev args ?m' e = candidate env prev args m e"
              using candidate_cong [OF sm] by (intro ext) simp
            moreover have "candidate env prev args m e et = [stamp nm et a]"
              using Some Fixed n True nm by (simp add: candidate_def)
            ultimately show ?thesis by simp
          qed
        qed
      qed
    next
      case (Callback f)
      show ?thesis
      proof (cases "f args")
        case (Inl err)
        with Cons.prems Some Callback show ?thesis by simp
      next
        case (Inr a)
        show ?thesis
        proof (cases "prev e")
          case None
          with Cons.prems Some Callback Inr show ?thesis by simp
        next
          case n: (Some n)
          show ?thesis
          proof (cases "DT_CTRL env * (of_int n + 1) \<ge> creation_delay a")
            case False
            with Cons.prems Some Callback Inr n
            have "fst (create_alerts_inner env prev args e ets m ret) = Inr r" by simp
            then have "r = ret @ concat (map (candidate env prev args m e) ets)" by (rule Cons.IH)
            moreover have "candidate env prev args m e et = []"
              using False Some Callback Inr n by (simp add: candidate_def)
            ultimately show ?thesis by simp
          next
            case True
            show ?thesis
            proof (cases "EVENT_NAME env e")
              case None
              with Cons.prems Some Callback Inr n True show ?thesis by simp
            next
              case nm: (Some nm)
              from Cons.prems Some Callback Inr n True nm
              have "fst (create_alerts_inner env prev args e ets m (ret @ [stamp nm et a])) = Inr r"
                by simp
              then have "r = (ret @ [stamp nm et a]) @ concat (map (candidate env prev args m e) ets)"
                by (rule Cons.IH)
              moreover have "candidate env prev args m e et = [stamp nm et a]"
                using Some Callback Inr n True nm by (simp add: candidate_def)
              ultimately show ?thesis by simp
            qed
          qed
        qed
      qed
    qed
  qed
qed

lemma same_catalog_refl [simp]: "same_catalog c c"
  by (simp add: same_catalog_def option.rel_refl)

lemma same_catalog_trans: "same_catalog c c' \<Longrightarrow> same_catalog c' c'' \<Longrightarrow> same_catalog c c''"
  unfolding same_catalog_def
proof
  fix e
  assume a: "\<forall>e. rel_option same_types (c e) (c' e)"
    and b: "\<forall>e. rel_option same_types (c' e) (c'' e)"
  from a have a': "rel_option same_types (c e) (c' e)" by blast
  from b have b': "rel_option same_types (c' e) (c'' e)" by blast
  from a' b' show "rel_option same_types (c e) (c'' e)"
    by (cases "c e"; cases "c' e"; cases "c'' e") (auto intro: same_types_trans)
qed

lemma same_catalog_update:
  "c e = Some m \<Longrightarrow> same_types m m' \<Longrightarrow> same_catalog c (c(e \<mapsto> m'))"
  by (simp add: same_catalog_def option.rel_refl)

lemma same_catalog_update2:
  "same_catalog c c' \<Longrightarrow> same_types m n \<Longrightarrow> same_catalog (c(e \<mapsto> m)) (c'(e \<mapsto> n))"
  by (simp add: same_catalog_def)

lemma same_catalog_lookup: "same_catalog c c' \<Longrightarrow> rel_option same_types (c e) (c' e)"
  by (simp add: same_catalog_def)


lemma loop_Cons_None:
  "EVENTS s e = None \<Longrightarrow>
   create_alerts_loop env args ets (e # es) s ret = (Inl KeyError, s)"
  by simp

lemma loop_Cons_Inl:
  "EVENTS s e = Some m \<Longrightarrow>
   create_alerts_inner env (events_prev s) args e ets m ret = (Inl err, m') \<Longrightarrow>
   create_alerts_loop env args ets (e # es) s ret = (Inl err, s\<lparr>EVENTS := (EVENTS s)(e \<mapsto> m')\<rparr>)"
  by simp

lemma loop_Cons_Inr:
  "EVENTS s e = Some m \<Longrightarrow>
   create_alerts_inner env (events_prev s) args e ets m ret = (Inr r, m') \<Longrightarrow>
   create_alerts_loop env args ets (e # es) s ret =
   create_alerts_loop env args ets es (s\<lparr>EVENTS := (EVENTS s)(e \<mapsto> m')\<rparr>) r"
  by simp

lemma loop_frame:
  "events (snd (create_alerts_loop env args ets es s ret)) = events s \<and>
   static_events (snd (create_alerts_loop env args ets es s ret)) = static_events s \<and>
   events_prev (snd (create_alerts_loop env args ets es s ret)) = events_prev s"
proof (induction es arbitrary: s ret)
  case Nil
  show ?case by simp
next
  case (Cons e es)
  show ?case
  proof (cases "EVENTS s e")
    case None
    then show ?thesis by (simp only: loop_Cons_None) simp
  next
    case (Some m)
    obtain res m' where i: "create_alerts_inner env (events_prev s) args e ets m ret = (res, m')"
      by (cases "create_alerts_inner env (events_prev s) args e ets m ret")
    show ?thesis
    proof (cases res)
      case (Inl err)
      with Some i show ?thesis by (simp only: loop_Cons_Inl) simp
    next
      case (Inr r)
      with Some i show ?thesis
        using Cons.IH [of "s\<lparr>EVENTS := (EVENTS s)(e \<mapsto> m')\<rparr>" r]
        by (simp only: loop_Cons_Inr) simp
    qed
  qed
qed

lemma loop_same:
  "same_catalog (EVENTS s) (EVENTS (snd (create_alerts_loop env args ets es s ret)))"
proof (induction es arbitrary: s ret)
  case Nil
  show ?case by simp
next
  case (Cons e es)
  show ?case
  proof (cases "EVENTS s e")
    case None
    then show ?thesis by (simp only: loop_Cons_None) simp
  next
    case (Some m)
    obtain res m' where i: "create_alerts_inner env (events_prev s) args e ets m ret = (res, m')"
      by (cases "create_alerts_inner env (events_prev s) args e ets m ret")
    have "same_types m (snd (create_alerts_inner env (events_prev s) args e ets m ret))"
      by (rule inner_same)
    then have "same_types m m'" by (simp add: i)
    with Some have sc: "same_catalog (EVENTS s) ((EVENTS s)(e \<mapsto> m'))"
      by (rule same_catalog_update)
    show ?thesis
    proof (cases res)
      case (Inl err)
      have "create_alerts_loop env args ets (e # es) s ret =
            (Inl err, s\<lparr>EVENTS := (EVENTS s)(e \<mapsto> m')\<rparr>)"
        using Some i Inl by (simp only: loop_Cons_Inl)
      then show ?thesis using sc by (simp del: create_alerts_loop.simps fun_upd_apply)
    next
      case (Inr r)
      have "same_catalog ((EVENTS s)(e \<mapsto> m'))
              (EVENTS (snd (create_alerts_loop env args ets es (s\<lparr>EVENTS := (EVENTS s)(e \<mapsto> m')\<rparr>) r)))"
        using Cons.IH [of "s\<lparr>EVENTS := (EVENTS s)(e \<mapsto> m')\<rparr>" r] by (simp del: fun_upd_apply)
      with sc have "same_catalog (EVENTS s)
              (EVENTS (snd (create_alerts_loop env args ets es (s\<lparr>EVENTS := (EVENTS s)(e \<mapsto> m')\<rparr>) r)))"
        by (rule same_catalog_trans)
      with Some i Inr show ?thesis by (simp only: loop_Cons_Inr)
    qed
  qed
qed

lemma all_candidates_Nil [simp]: "all_candidates env prev args cat ets [] = []"
  by (simp add: all_candidates_def)

lemma all_candidates_Cons:
  "all_candidates env prev args cat ets (e # es) =
   (case cat e of None \<Rightarrow> [] | Some types \<Rightarrow> concat (map (candidate env prev args types e) ets))
   @ all_candidates env prev args cat ets es"
  by (simp add: all_candidates_def)

lemma all_candidates_cong:
  assumes "same_catalog c c'"
  shows "all_candidates env prev args c ets es = all_candidates env prev args c' ets es"
proof (induction es)
  case Nil
  show ?case by simp
next
  case (Cons e es)
  have r: "rel_option same_types (c e) (c' e)" using assms by (rule same_catalog_lookup)
  have "(case c e of None \<Rightarrow> [] | Some types \<Rightarrow> concat (map (candidate env prev args types e) ets))
      = (case c' e of None \<Rightarrow> [] | Some types \<Rightarrow> concat (map (candidate env prev args types e) ets))"
  proof (cases "c e")
    case None
    with r have "c' e = None" by (cases "c' e") simp_all
    with None show ?thesis by simp
  next
    case (Some m)
    with r obtain m' where m': "c' e = Some m'" and sm: "same_types m m'"
      by (cases "c' e") simp_all
    have "candidate env prev args m e = candidate env prev args m' e"
      using candidate_cong [OF sm] by (intro ext) simp
    with Some m' show ?thesis by simp
  qed
  with Cons show ?case by (simp only: all_candidates_Cons)
qed

lemma loop_Inr:
  "fst (create_alerts_loop env args ets es s ret) = Inr r \<Longrightarrow>
   r = ret @ all_candidates env (events_prev s) args (EVENTS s) ets es"
proof (induction es arbitrary: s ret)
  case Nil
  then show ?case by simp
next
  case (Cons e es)
  show ?case
  proof (cases "EVENTS s e")
    case None
    with Cons.prems show ?thesis by (simp only: loop_Cons_None) simp
  next
    case (Some m)
    obtain res m' where i: "create_alerts_inner env (events_prev s) args e ets m ret = (res, m')"
      by (cases "create_alerts_inner env (events_prev s) args e ets m ret")
    have "same_types m (snd (create_alerts_inner env (events_prev s) args e ets m ret))"
      by (rule inner_same)
    then have "same_types m m'" by (simp add: i)
    with Some have sc: "same_catalog (EVENTS s) ((EVENTS s)(e \<mapsto> m'))"
      by (rule same_catalog_update)
    show ?thesis
    proof (cases res)
      case (Inl err)
      with Some i Cons.prems show ?thesis by (simp only: loop_Cons_Inl) simp
    next
      case (Inr r1)
      let ?s1 = "s\<lparr>EVENTS := (EVENTS s)(e \<mapsto> m')\<rparr>"
      from Some i Inr Cons.prems
      have "fst (create_alerts_loop env args ets es ?s1 r1) = Inr r"
        by (simp only: loop_Cons_Inr)
      then have "r = r1 @ all_candidates env (events_prev ?s1) args (EVENTS ?s1) ets es"
        by (rule Cons.IH)
      then have a: "r = r1 @ all_candidates env (events_prev s) args (EVENTS s) ets es"
        using all_candidates_cong [OF sc] by (simp del: fun_upd_apply)
      have "fst (create_alerts_inner env (events_prev s) args e ets m ret) = Inr r1"
        using i Inr by simp
      then have b: "r1 = ret @ concat (map (candidate env (events_prev s) args m e) ets)"
        by (rule inner_Inr)
      show ?thesis using a b Some by (simp add: all_candidates_Cons)
    qed
  qed
qed

lemma loop_cong:
  "same_catalog (EVENTS s) (EVENTS s') \<Longrightarrow> events_prev s = events_prev s' \<Longrightarrow>
   fst (create_alerts_loop env args ets es s ret) = fst (create_alerts_loop env args ets es s' ret)"
proof (induction es arbitrary: s s' ret)
  case Nil
  show ?case by simp
next
  case (Cons e es)
  have r: "rel_option same_types (EVENTS s e) (EVENTS s' e)"
    using Cons.prems(1) by (rule same_catalog_lookup)
  show ?case
  proof (cases "EVENTS s e")
    case None
    with r have "EVENTS s' e = None" by (cases "EVENTS s' e") simp_all
    with None show ?thesis by (simp only: loop_Cons_None) simp
  next
    case (Some m)
    with r obtain n where n: "EVENTS s' e = Some n" and mn: "same_types m n"
      by (cases "EVENTS s' e") simp_all
    obtain res m' where i: "create_alerts_inner env (events_prev s) args e ets m ret = (res, m')"
      by (cases "create_alerts_inner env (events_prev s) args e ets m ret")
    obtain res' n' where j: "create_alerts_inner env (events_prev s') args e ets n ret = (res', n')"
      by (cases "create_alerts_inner env (events_prev s') args e ets n ret")
    have "fst (create_alerts_inner env (events_prev s) args e ets m ret) =
          fst (create_alerts_inner env (events_prev s) args e ets n ret)"
      using mn by (rule inner_cong)
    then have rr: "res' = res" using i j Cons.prems(2) by simp
    have "same_types m (snd (create_alerts_inner env (events_prev s) args e ets m ret))"
      by (rule inner_same)
    then have mm': "same_types m m'" by (simp add: i)
    have "same_types n (snd (create_alerts_inner env (events_prev s') args e ets n ret))"
      by (rule inner_same)
    then have nn': "same_types n n'" by (simp add: j)
    show ?thesis
    proof (cases res)
      case (Inl err)
      with Some n i j rr show ?thesis by (simp only: loop_Cons_Inl) simp
    next
      case (Inr r1)
      let ?s1 = "s\<lparr>EVENTS := (EVENTS s)(e \<mapsto> m')\<rparr>"
      let ?s1' = "s'\<lparr>EVENTS := (EVENTS s')(e \<mapsto> n')\<rparr>"
      have "same_types m' m" using mm' by (rule same_types_sym)
      then have "same_types m' n" using mn by (rule same_types_trans)
      then have "same_types m' n'" using nn' by (rule same_types_trans)
      with Cons.prems(1) have "same_catalog ((EVENTS s)(e \<mapsto> m')) ((EVENTS s')(e \<mapsto> n'))"
        by (rule same_catalog_update2)
      then have c: "same_catalog (EVENTS ?s1) (EVENTS ?s1')" by (simp del: fun_upd_apply)
      have p: "events_prev ?s1 = events_prev ?s1'" using Cons.prems(2) by simp
      have "fst (create_alerts_loop env args ets es ?s1 r1) =
            fst (create_alerts_loop env args ets es ?s1' r1)"
        using c p by (rule Cons.IH)
      moreover have "create_alerts_loop env args ets (e # es) s ret =
                     create_alerts_loop env args ets es ?s1 r1"
        using Some i Inr by (simp only: loop_Cons_Inr)
      moreover have "create_alerts_loop env args ets (e # es) s' ret =
                     create_alerts_loop env args ets es ?s1' r1"
        using n j rr Inr by (simp only: loop_Cons_Inr)
      ultimately show ?thesis by simp
    qed
  qed
qed

section \<open>Properties of the event log\<close>

lemma add_from_msg_fields:
  "events (add_from_msg s es) = events s @ es \<and>
   static_events (add_from_msg s es) = static_events s \<and>
   events_prev (add_from_msg s es) = events_prev s \<and>
   EVENTS (add_from_msg s es) = EVENTS s"
  by (induction es arbitrary: s) simp_all

lemma create_alerts_frame:
  "events (snd (create_alerts env s ets args)) = events s \<and>
   static_events (snd (create_alerts env s ets args)) = static_events s \<and>
   events_prev (snd (create_alerts env s ets args)) = events_prev s"
  unfolding create_alerts_def by (rule loop_frame)

lemma step_keeps_static:
  "e \<in> set (static_events s) \<Longrightarrow> e \<in> set (events s) \<Longrightarrow>
   e \<in> set (static_events (step env s c)) \<and> e \<in> set (events (step env s c))"
  by (cases c) (simp_all add: add_def clear_def Let_def add_from_msg_fields create_alerts_frame)

lemma run_keeps_static:
  "e \<in> set (static_events s) \<Longrightarrow> e \<in> set (events s) \<Longrightarrow>
   e \<in> set (static_events (run env s cs)) \<and> e \<in> set (events (run env s cs))"
proof (induction cs arbitrary: s)
  case Nil
  then show ?case by simp
next
  case (Cons c cs)
  from step_keeps_static [OF Cons.prems, of env c]
  have "e \<in> set (static_events (step env s c))" "e \<in> set (events (step env s c))" by simp_all
  then show ?case using Cons.IH by simp
qed

lemma step_never_raised:
  "\<not> raises e c \<Longrightarrow>
   e \<notin> set (events s) \<Longrightarrow> e \<notin> set (static_events s) \<Longrightarrow> events_prev s e = Some 0 \<Longrightarrow>
   e \<notin> set (events (step env s c)) \<and> e \<notin> set (static_events (step env s c)) \<and>
   events_prev (step env s c) e = Some 0"
  by (cases c) (auto simp add: add_def clear_def Let_def add_from_msg_fields create_alerts_frame)

lemma run_never_raised:
  "\<forall>c\<in>set cs. \<not> raises e c \<Longrightarrow>
   e \<notin> set (events s) \<Longrightarrow> e \<notin> set (static_events s) \<Longrightarrow> events_prev s e = Some 0 \<Longrightarrow>
   e \<notin> set (events (run env s cs)) \<and> e \<notin> set (static_events (run env s cs)) \<and>
   events_prev (run env s cs) e = Some 0"
proof (induction cs arbitrary: s)
  case Nil
  then show ?case by simp
next
  case (Cons c cs)
  have nr: "\<not> raises e c" using Cons.prems(1) by simp
  have rest: "\<forall>c\<in>set cs. \<not> raises e c" using Cons.prems(1) by simp
  from step_never_raised [OF nr Cons.prems(2) Cons.prems(3) Cons.prems(4), of env]
  have a: "e \<notin> set (events (step env s c))" and b: "e \<notin> set (static_events (step env s c))"
    and c: "events_prev (step env s c) e = Some 0" by simp_all
  show ?case using Cons.IH [OF rest a b c] by simp
qed

text \<open>
  Claim C3. \<open>clear\<close> adds one to the counter of every event of \<open>events_prev\<close> that is
  in \<open>events\<close> and resets the counter of every other one to 0, keeps the keys of
  \<open>events_prev\<close>, and replaces \<open>events\<close> by a copy of \<open>static_events\<close>, which it keeps.
  Hence, from a new \<open>Events\<close> object, the counter of a catalog event that no call puts
  into \<open>events\<close> stays 0 whatever calls are made, and an event added once with
  \<open>static=True\<close> is in \<open>events\<close> after any later calls.
\<close>

theorem clear_semantics:
  "(events_prev s k = Some v \<longrightarrow>
      events_prev (clear s) k = Some (if k \<in> set (events s) then v + 1 else 0))
   \<and> (events_prev s k = None \<longrightarrow> events_prev (clear s) k = None)
   \<and> events (clear s) = static_events s
   \<and> static_events (clear s) = static_events s
   \<and> (cat e \<noteq> None \<and> (\<forall>c\<in>set cs. \<not> raises e c) \<longrightarrow>
        events_prev (run env (Events_init cat) cs) e = Some 0)
   \<and> p \<in> set (events (run env (add s p True) cs'))"
proof -
  have a: "events_prev s k = Some v \<longrightarrow>
      events_prev (clear s) k = Some (if k \<in> set (events s) then v + 1 else 0)"
    by (simp add: clear_def Let_def)
  have b: "events_prev s k = None \<longrightarrow> events_prev (clear s) k = None"
    by (simp add: clear_def Let_def)
  have c: "events (clear s) = static_events s \<and> static_events (clear s) = static_events s"
    by (simp add: clear_def Let_def)
  have d: "cat e \<noteq> None \<and> (\<forall>c\<in>set cs. \<not> raises e c) \<longrightarrow>
        events_prev (run env (Events_init cat) cs) e = Some 0"
  proof
    assume h: "cat e \<noteq> None \<and> (\<forall>c\<in>set cs. \<not> raises e c)"
    then have nr: "\<forall>c\<in>set cs. \<not> raises e c" by simp
    have i1: "e \<notin> set (events (Events_init cat))" by (simp add: Events_init_def)
    have i2: "e \<notin> set (static_events (Events_init cat))" by (simp add: Events_init_def)
    have i3: "events_prev (Events_init cat) e = Some 0" using h by (auto simp add: Events_init_def)
    from run_never_raised [OF nr i1 i2 i3, of env]
    show "events_prev (run env (Events_init cat) cs) e = Some 0" by simp
  qed
  have f: "p \<in> set (events (run env (add s p True) cs'))"
  proof -
    have "p \<in> set (static_events (add s p True))" "p \<in> set (events (add s p True))"
      by (simp_all add: add_def Let_def)
    from run_keeps_static [OF this, of env cs'] show ?thesis by simp
  qed
  show ?thesis using a b c d f by blast
qed

theorem clear_semantics_witness:
  "events_prev (clear (add (Events_init example_EVENTS) 1 False)) 1 = Some 1
   \<and> events_prev (clear (add (Events_init example_EVENTS) 1 False)) 2 = Some 0
   \<and> events_prev (clear (add (Events_init example_EVENTS) 1 False)) 99 = None
   \<and> events_prev (run example_env (Events_init example_EVENTS) [Add 1 False, Clear, Clear]) 2 = Some 0
   \<and> 3 \<in> set (events (run example_env (add (Events_init example_EVENTS) 3 True) [Clear, Clear, Clear, Clear, Clear]))"
  using clear_semantics [of "add (Events_init example_EVENTS) 1 False" 1 0 example_EVENTS 2
          "[Add 1 False, Clear, Clear]" example_env 3 "[Clear, Clear, Clear, Clear, Clear]"]
        clear_semantics [of "add (Events_init example_EVENTS) 1 False" 2 0 example_EVENTS 2
          "[]" example_env 3 "[]"]
        clear_semantics [of "add (Events_init example_EVENTS) 1 False" 99 0 example_EVENTS 2
          "[]" example_env 3 "[]"]
  by (simp add: Events_init_def add_def clear_def Let_def example_EVENTS_def)

text \<open>
  Claim C4, as amended. \<open>add\<close> appends the event to \<open>events\<close> whether it is already
  there or not: the number of its occurrences grows by one at every call, so \<open>events\<close>
  can hold the same event several times.
\<close>

theorem add_appends:
  "events (add s e static) = events s @ [e]
   \<and> count_list (events (add s e static)) e = count_list (events s) e + 1"
  by (simp add: add_def Let_def)

theorem add_duplicate_counterexample:
  "\<not> distinct (events (add (add (Events_init example_EVENTS) 1 False) 1 False))"
  by (simp add: add_def Let_def Events_init_def)

text \<open>
  Claim C9, as amended. A second \<open>add\<close> of an event with \<open>static=True\<close> appends it once
  more to \<open>static_events\<close> and to \<open>events\<close>: the set of static events is unchanged, but
  the list holds the event twice, and \<open>clear\<close> then puts it into \<open>events\<close> once more than
  after a single call.
\<close>

theorem add_static_twice:
  "static_events (add (add s e True) e True) = static_events s @ [e, e]
   \<and> set (static_events (add (add s e True) e True)) = set (static_events (add s e True))
   \<and> events (add (add s e True) e True) = events s @ [e, e]
   \<and> events (clear (add (add s e True) e True)) = events (clear (add s e True)) @ [e]"
  by (simp add: add_def clear_def Let_def)

theorem add_static_twice_counterexample:
  "static_events (add (add (Events_init example_EVENTS) 1 True) 1 True) \<noteq>
   static_events (add (add (Events_init example_EVENTS) 1 True) 1 False)
   \<and> events (clear (add (add (Events_init example_EVENTS) 1 True) 1 True)) \<noteq>
     events (clear (add (add (Events_init example_EVENTS) 1 True) 1 False))"
  by (simp add: add_def clear_def Let_def Events_init_def)

section \<open>Ingestion, purity of create_alerts and the catalog\<close>

lemma same_catalog_sym: "same_catalog c c' \<Longrightarrow> same_catalog c' c"
  unfolding same_catalog_def
proof
  fix e
  assume a: "\<forall>e. rel_option same_types (c e) (c' e)"
  then have "rel_option same_types (c e) (c' e)" by blast
  then show "rel_option same_types (c' e) (c e)"
    by (cases "c e"; cases "c' e") (auto intro: same_types_sym)
qed

lemma any_loop_append:
  "any_loop cat et (xs @ ys) = (any_loop cat et xs \<or> any_loop cat et ys)"
  by (induction xs) simp_all

lemma any_loop_unknown: "\<forall>e\<in>set es. cat e = None \<Longrightarrow> any_loop cat et es = False"
  by (induction es) simp_all

text \<open>
  Claim C7, as amended. \<open>add_from_msg\<close> appends the event of every message to \<open>events\<close>,
  in order, whether the catalog knows it or not, and changes nothing else; it keeps no
  counter and raises nothing. \<open>any\<close> reads an event outside the catalog as one with no
  event types, and \<open>to_msg\<close> emits one message for every appended event.
\<close>

theorem add_from_msg_appends:
  "events (add_from_msg s es) = events s @ es
   \<and> static_events (add_from_msg s es) = static_events s
   \<and> events_prev (add_from_msg s es) = events_prev s
   \<and> EVENTS (add_from_msg s es) = EVENTS s
   \<and> ((\<forall>e\<in>set es. EVENTS s e = None) \<longrightarrow> any_ev (add_from_msg s es) et = any_ev s et)
   \<and> map name (to_msg (add_from_msg s es)) = map name (to_msg s) @ es"
proof -
  have a: "(\<forall>e\<in>set es. EVENTS s e = None) \<longrightarrow> any_ev (add_from_msg s es) et = any_ev s et"
    by (simp add: any_ev_def add_from_msg_fields any_loop_append any_loop_unknown)
  have b: "map name (to_msg (add_from_msg s es)) = map name (to_msg s) @ es"
    by (simp add: to_msg_def add_from_msg_fields comp_def)
  show ?thesis using a b add_from_msg_fields [of s es] by blast
qed

theorem add_from_msg_appends_witness:
  "events (add_from_msg (Events_init example_EVENTS) [1, 99]) = [1, 99]
   \<and> any_ev (add_from_msg (Events_init example_EVENTS) [99]) ''warning'' = False"
  using add_from_msg_appends [of "Events_init example_EVENTS" "[1, 99]" "''warning''"]
        add_from_msg_appends [of "Events_init example_EVENTS" "[99]" "''warning''"]
  by (simp add: Events_init_def example_EVENTS_def any_ev_def)

theorem add_from_msg_unknown_counterexample:
  "example_EVENTS 99 = None \<and> EVENT_NAME example_env 99 = None
   \<and> 99 \<in> set (events (add_from_msg (Events_init example_EVENTS) [99]))
   \<and> fst (create_alerts example_env (add_from_msg (Events_init example_EVENTS) [99])
            [''warning''] None) = Inl KeyError"
  by (simp add: Events_init_def example_EVENTS_def example_env_def create_alerts_def)

text \<open>
  Claim C5. \<open>create_alerts\<close> leaves \<open>events\<close>, \<open>static_events\<close> and \<open>events_prev\<close> as they
  are, and a second call with the same arguments, made in the state the first call
  leaves, returns what the first call returned (the same alerts or the same exception).
\<close>

theorem create_alerts_pure:
  "events (snd (create_alerts env s ets args)) = events s
   \<and> static_events (snd (create_alerts env s ets args)) = static_events s
   \<and> events_prev (snd (create_alerts env s ets args)) = events_prev s
   \<and> fst (create_alerts env (snd (create_alerts env s ets args)) ets args) =
     fst (create_alerts env s ets args)"
proof -
  let ?s1 = "snd (create_alerts env s ets args)"
  have f: "events ?s1 = events s \<and> static_events ?s1 = static_events s \<and>
           events_prev ?s1 = events_prev s"
    by (rule create_alerts_frame)
  have "same_catalog (EVENTS s) (EVENTS ?s1)"
    unfolding create_alerts_def by (rule loop_same)
  then have c: "same_catalog (EVENTS ?s1) (EVENTS s)" by (rule same_catalog_sym)
  have p: "events_prev ?s1 = events_prev s" using f by simp
  have "fst (create_alerts_loop env (case args of None \<Rightarrow> [] | Some a \<Rightarrow> a) ets (events s) ?s1 []) =
        fst (create_alerts_loop env (case args of None \<Rightarrow> [] | Some a \<Rightarrow> a) ets (events s) s [])"
    using c p by (rule loop_cong)
  then have "fst (create_alerts env ?s1 ets args) = fst (create_alerts env s ets args)"
    using f by (simp add: create_alerts_def)
  with f show ?thesis by blast
qed

lemma step_same_catalog: "same_catalog (EVENTS s) (EVENTS (step env s c))"
proof (cases c)
  case (CreateAlerts ets args)
  have "same_catalog (EVENTS s) (EVENTS (snd (create_alerts env s ets args)))"
    unfolding create_alerts_def by (rule loop_same)
  with CreateAlerts show ?thesis by simp
qed (simp_all add: add_def clear_def Let_def add_from_msg_fields)

lemma run_same_catalog: "same_catalog (EVENTS s) (EVENTS (run env s cs))"
proof (induction cs arbitrary: s)
  case Nil
  show ?case by simp
next
  case (Cons c cs)
  have "same_catalog (EVENTS s) (EVENTS (step env s c))" by (rule step_same_catalog)
  moreover have "same_catalog (EVENTS (step env s c)) (EVENTS (run env (step env s c) cs))"
    by (rule Cons.IH)
  ultimately have "same_catalog (EVENTS s) (EVENTS (run env (step env s c) cs))"
    by (rule same_catalog_trans)
  then show ?case by simp
qed

text \<open>
  Claim C8, as amended. No sequence of calls changes the keys of the catalog or of its
  inner dictionaries, any callable stored in it, or any field of a stored \<open>Alert\<close> other
  than \<open>alert_type\<close> and \<open>event_type\<close>, which \<open>create_alerts\<close> writes on the stored
  object; \<open>add\<close>, \<open>clear\<close> and \<open>add_from_msg\<close> leave the catalog equal to what it was.
\<close>

theorem catalog_same_up_to_tags:
  "same_catalog (EVENTS s) (EVENTS (run env s cs))
   \<and> EVENTS (add s e static) = EVENTS s
   \<and> EVENTS (clear s) = EVENTS s
   \<and> EVENTS (add_from_msg s es) = EVENTS s"
  using run_same_catalog [of s env cs]
  by (simp add: add_def clear_def Let_def add_from_msg_fields)

theorem catalog_mutated_counterexample:
  "EVENTS (snd (create_alerts example_env (add (Events_init example_EVENTS) 1 False)
                  [''warning''] None)) \<noteq> example_EVENTS"
proof
  assume h: "EVENTS (snd (create_alerts example_env (add (Events_init example_EVENTS) 1 False)
                  [''warning''] None)) = example_EVENTS"
  have "EVENTS (snd (create_alerts example_env (add (Events_init example_EVENTS) 1 False)
                  [''warning''] None)) 1 =
        Some [''warning'' \<mapsto> Fixed (stamp ''preDriverDistracted'' ''warning'' alert_preDriverDistracted)]"
    by (simp add: create_alerts_def add_def Let_def Events_init_def example_EVENTS_def
        example_env_def alert_preDriverDistracted_def Alert_init_def)
  with h have "example_EVENTS 1 =
        Some [''warning'' \<mapsto> Fixed (stamp ''preDriverDistracted'' ''warning'' alert_preDriverDistracted)]"
    by simp
  then have "[''warning'' \<mapsto> (Fixed alert_preDriverDistracted :: nat template)] =
        [''warning'' \<mapsto> Fixed (stamp ''preDriverDistracted'' ''warning'' alert_preDriverDistracted)]"
    by (simp add: example_EVENTS_def)
  then have "(Fixed alert_preDriverDistracted :: nat template) =
        Fixed (stamp ''preDriverDistracted'' ''warning'' alert_preDriverDistracted)"
    by (rule map_upd_eqD1)
  then have "alert_type alert_preDriverDistracted =
        alert_type (stamp ''preDriverDistracted'' ''warning'' alert_preDriverDistracted)"
    by simp
  then show False
    by (simp add: stamp_def alert_preDriverDistracted_def Alert_init_def)
qed

section \<open>Exceptions raised by callables\<close>

lemma same_types_Callback:
  assumes "same_types m m'" and "m et = Some (Callback f)"
  shows "m' et = Some (Callback f)"
proof -
  have "rel_option same_template (m et) (m' et)" using assms(1) by (rule same_types_lookup)
  with assms(2) obtain t where t: "m' et = Some t" and st: "same_template (Callback f) t"
    by (cases "m' et") simp_all
  from st have "t = Callback f" by (cases t) simp_all
  with t show ?thesis by simp
qed

lemma inner_Inr_no_fault:
  "fst (create_alerts_inner env prev args e ets m ret) = Inr r \<Longrightarrow>
   et \<in> set ets \<Longrightarrow> m et = Some (Callback f) \<Longrightarrow> \<exists>a. f args = Inr a"
proof (induction ets arbitrary: m ret)
  case Nil
  then show ?case by simp
next
  case (Cons x ets)
  show ?case
  proof (cases "x = et")
    case True
    with Cons.prems(1) Cons.prems(3) show ?thesis
      by (cases "f args") simp_all
  next
    case False
    with Cons.prems(2) have mem: "et \<in> set ets" by simp
    show ?thesis
    proof (cases "m x")
      case None
      with Cons.prems(1) have "fst (create_alerts_inner env prev args e ets m ret) = Inr r" by simp
      then show ?thesis using mem Cons.prems(3) by (rule Cons.IH)
    next
      case (Some t)
      have "\<exists>m' ret'. fst (create_alerts_inner env prev args e ets m' ret') = Inr r \<and>
              m' et = Some (Callback f)"
        using Cons.prems(1) Cons.prems(3) Some False
        by (cases t) (auto split: sum.splits option.splits if_splits)
      then obtain m' ret' where
        "fst (create_alerts_inner env prev args e ets m' ret') = Inr r" "m' et = Some (Callback f)"
        by blast
      then show ?thesis using mem Cons.IH by blast
    qed
  qed
qed

lemma loop_Inr_no_fault:
  "fst (create_alerts_loop env args ets es s ret) = Inr r \<Longrightarrow>
   e \<in> set es \<Longrightarrow> EVENTS s e = Some m \<Longrightarrow> et \<in> set ets \<Longrightarrow> m et = Some (Callback f) \<Longrightarrow>
   \<exists>a. f args = Inr a"
proof (induction es arbitrary: s ret m)
  case Nil
  then show ?case by simp
next
  case (Cons x es)
  show ?case
  proof (cases "EVENTS s x")
    case None
    with Cons.prems(1) show ?thesis by (simp only: loop_Cons_None) simp
  next
    case (Some mx)
    obtain res m' where i: "create_alerts_inner env (events_prev s) args x ets mx ret = (res, m')"
      by (cases "create_alerts_inner env (events_prev s) args x ets mx ret")
    show ?thesis
    proof (cases res)
      case (Inl err)
      with Some i Cons.prems(1) show ?thesis by (simp only: loop_Cons_Inl) simp
    next
      case (Inr r1)
      let ?s1 = "s\<lparr>EVENTS := (EVENTS s)(x \<mapsto> m')\<rparr>"
      have fi: "fst (create_alerts_inner env (events_prev s) args x ets mx ret) = Inr r1"
        using i Inr by simp
      show ?thesis
      proof (cases "x = e")
        case True
        with Some Cons.prems(3) have "mx = m" by simp
        with fi Cons.prems(4) Cons.prems(5) show ?thesis by (auto dest: inner_Inr_no_fault)
      next
        case False
        with Cons.prems(2) have mem: "e \<in> set es" by simp
        from Some i Inr Cons.prems(1)
        have l: "fst (create_alerts_loop env args ets es ?s1 r1) = Inr r"
          by (simp only: loop_Cons_Inr)
        have ev: "EVENTS ?s1 e = Some m" using False Cons.prems(3) by simp
        show ?thesis using l mem ev Cons.prems(4) Cons.prems(5) by (rule Cons.IH)
      qed
    qed
  qed
qed

text \<open>
  Claim C6, as amended. If the callable stored for an event of \<open>events\<close> and a
  requested event type raises when applied to \<open>callback_args\<close>, \<open>create_alerts\<close> raises:
  it returns no alerts, substitutes nothing and counts nothing.
\<close>

theorem create_alerts_callback_fault:
  "e \<in> set (events s) \<Longrightarrow> EVENTS s e = Some m \<Longrightarrow> et \<in> set ets \<Longrightarrow>
   m et = Some (Callback f) \<Longrightarrow>
   f (case args of None \<Rightarrow> [] | Some a \<Rightarrow> a) = Inl err \<Longrightarrow>
   isl (fst (create_alerts env s ets args))"
proof (rule ccontr)
  assume h: "e \<in> set (events s)" "EVENTS s e = Some m" "et \<in> set ets"
    "m et = Some (Callback f)" "f (case args of None \<Rightarrow> [] | Some a \<Rightarrow> a) = Inl err"
  assume "\<not> isl (fst (create_alerts env s ets args))"
  then obtain r where "fst (create_alerts env s ets args) = Inr r"
    by (cases "fst (create_alerts env s ets args)") simp_all
  then have "fst (create_alerts_loop env (case args of None \<Rightarrow> [] | Some a \<Rightarrow> a) ets (events s) s []) = Inr r"
    by (simp add: create_alerts_def)
  from loop_Inr_no_fault [OF this h(1) h(2) h(3) h(4)] h(5) show False by simp
qed

theorem create_alerts_callback_fault_witness:
  "isl (fst (create_alerts example_env (add (Events_init example_EVENTS) 4 False) [''warning''] None))"
  using create_alerts_callback_fault [of 4 "add (Events_init example_EVENTS) 4 False"
          "[''warning'' \<mapsto> Callback joystick_callback]" "''warning''" "[''warning'']"
          joystick_callback None CallbackError example_env]
  by (simp add: add_def Let_def Events_init_def example_EVENTS_def joystick_callback_def)

theorem callback_fault_counterexample:
  "fst (create_alerts example_env (add (Events_init example_EVENTS) 4 False) [''warning''] None)
   = Inl CallbackError"
  by (simp add: create_alerts_def add_def Let_def Events_init_def example_EVENTS_def
      joystick_callback_def)

section \<open>What create_alerts returns\<close>

lemma candidate_cases:
  "candidate env prev args m e et = [] \<or>
   (\<exists>tmpl alert n nm.
      m et = Some tmpl \<and> (case tmpl of Fixed a \<Rightarrow> Inr a | Callback f \<Rightarrow> f args) = Inr alert \<and>
      prev e = Some n \<and> DT_CTRL env * (of_int n + 1) \<ge> creation_delay alert \<and>
      EVENT_NAME env e = Some nm \<and> candidate env prev args m e et = [stamp nm et alert])"
proof (cases "m et")
  case None
  then show ?thesis by (simp add: candidate_def)
next
  case (Some tmpl)
  show ?thesis
  proof (cases "case tmpl of Fixed a \<Rightarrow> Inr a | Callback f \<Rightarrow> f args")
    case (Inl err)
    with Some show ?thesis by (simp add: candidate_def)
  next
    case (Inr alert)
    show ?thesis
    proof (cases "prev e")
      case None
      with Some Inr show ?thesis by (simp add: candidate_def)
    next
      case n: (Some n)
      show ?thesis
      proof (cases "DT_CTRL env * (of_int n + 1) \<ge> creation_delay alert")
        case False
        with Some Inr n show ?thesis by (simp add: candidate_def)
      next
        case True
        show ?thesis
        proof (cases "EVENT_NAME env e")
          case None
          with Some Inr n True show ?thesis by (simp add: candidate_def)
        next
          case nm: (Some nm)
          with Some Inr n True show ?thesis by (simp add: candidate_def)
        qed
      qed
    qed
  qed
qed

lemma candidate_event_type:
  "x \<in> set (candidate env prev args m e et) \<Longrightarrow> event_type x = Some et"
  using candidate_cases [of env prev args m e et] by (auto simp add: stamp_def)

lemma candidate_alert_type:
  "x \<in> set (candidate env prev args m e et) \<Longrightarrow>
   \<exists>nm. EVENT_NAME env e = Some nm \<and> alert_type x = nm @ ''/'' @ et"
  using candidate_cases [of env prev args m e et] by (auto simp add: stamp_def)

lemma concat_none:
  "et \<notin> set ets \<Longrightarrow> concat (map (\<lambda>et'. if et' = et then f et' else []) ets) = []"
  by (induction ets) auto

lemma filter_candidate:
  "filter (\<lambda>a. event_type a = Some et) (candidate env prev args m e et') =
   (if et' = et then candidate env prev args m e et' else [])"
proof (cases "et' = et")
  case True
  have "\<forall>x\<in>set (candidate env prev args m e et'). event_type x = Some et"
    using True by (auto dest: candidate_event_type)
  then have "filter (\<lambda>a. event_type a = Some et) (candidate env prev args m e et') =
             candidate env prev args m e et'"
    by (simp add: filter_id_conv)
  with True show ?thesis by simp
next
  case False
  have "\<forall>x\<in>set (candidate env prev args m e et'). event_type x \<noteq> Some et"
    using False by (auto dest: candidate_event_type)
  then have "filter (\<lambda>a. event_type a = Some et) (candidate env prev args m e et') = []"
    by (simp add: filter_empty_conv)
  with False show ?thesis by simp
qed

lemma concat_single:
  "distinct ets \<Longrightarrow> et \<in> set ets \<Longrightarrow>
   concat (map (\<lambda>et'. if et' = et then f et' else []) ets) = f et"
proof (induction ets)
  case Nil
  then show ?case by simp
next
  case (Cons x ets)
  show ?case
  proof (cases "x = et")
    case True
    with Cons.prems have "et \<notin> set ets" by simp
    then have "concat (map (\<lambda>et'. if et' = et then f et' else []) ets) = []"
      by (rule concat_none)
    with True show ?thesis by simp
  next
    case False
    with Cons show ?thesis by simp
  qed
qed

lemma filter_candidates_types:
  assumes "distinct ets" and "et \<in> set ets"
  shows "filter (\<lambda>a. event_type a = Some et) (concat (map (candidate env prev args m e) ets)) =
         candidate env prev args m e et"
proof -
  have "filter (\<lambda>a. event_type a = Some et) (concat (map (candidate env prev args m e) ets)) =
        concat (map (\<lambda>et'. filter (\<lambda>a. event_type a = Some et) (candidate env prev args m e et')) ets)"
    by (simp add: filter_concat comp_def)
  also have "\<dots> = concat (map (\<lambda>et'. if et' = et then candidate env prev args m e et' else []) ets)"
    by (simp only: filter_candidate)
  also have "\<dots> = candidate env prev args m e et"
    using assms by (rule concat_single)
  finally show ?thesis .
qed

lemma filter_all_candidates:
  assumes "distinct ets" and "et \<in> set ets"
  shows "filter (\<lambda>a. event_type a = Some et) (all_candidates env prev args cat ets es) =
         all_candidates env prev args cat [et] es"
proof (induction es)
  case Nil
  show ?case by simp
next
  case (Cons e es)
  show ?case
  proof (cases "cat e")
    case None
    with Cons show ?thesis by (simp add: all_candidates_Cons)
  next
    case (Some m)
    with Cons show ?thesis
      by (simp add: all_candidates_Cons filter_candidates_types [OF assms])
  qed
qed

lemma create_alerts_Inr:
  "fst (create_alerts env s ets args) = Inr ret \<Longrightarrow>
   ret = all_candidates env (events_prev s) (case args of None \<Rightarrow> [] | Some a \<Rightarrow> a)
           (EVENTS s) ets (events s)"
  unfolding create_alerts_def by (drule loop_Inr) simp

lemma set_all_candidates:
  "x \<in> set (all_candidates env prev args cat ets es) \<longleftrightarrow>
   (\<exists>e\<in>set es. \<exists>m. cat e = Some m \<and> (\<exists>et\<in>set ets. x \<in> set (candidate env prev args m e et)))"
  by (induction es) (auto simp add: all_candidates_Cons split: option.splits)

text \<open>
  Claim C2, as amended. \<open>create_alerts\<close> makes no selection by priority: for every
  requested event type, the alerts of that type in its result are one alert for every
  event of \<open>events\<close>, in the order of \<open>events\<close> and once per occurrence, whose catalog
  entry has that type and whose creation delay has passed, whatever their priorities.
\<close>

theorem create_alerts_all_per_type:
  "fst (create_alerts env s ets args) = Inr ret \<Longrightarrow> distinct ets \<Longrightarrow> et \<in> set ets \<Longrightarrow>
   filter (\<lambda>a. event_type a = Some et) ret =
   all_candidates env (events_prev s) (case args of None \<Rightarrow> [] | Some a \<Rightarrow> a)
     (EVENTS s) [et] (events s)"
proof -
  assume r: "fst (create_alerts env s ets args) = Inr ret" and d: "distinct ets" and m: "et \<in> set ets"
  have "ret = all_candidates env (events_prev s) (case args of None \<Rightarrow> [] | Some a \<Rightarrow> a)
           (EVENTS s) ets (events s)"
    using r by (rule create_alerts_Inr)
  then show ?thesis using filter_all_candidates [OF d m] by simp
qed

theorem create_alerts_all_per_type_witness:
  "filter (\<lambda>a. event_type a = Some ''warning'')
     [stamp ''preDriverDistracted'' ''warning'' alert_preDriverDistracted,
      stamp ''driverDistracted'' ''warning'' alert_driverDistracted] =
   all_candidates example_env
     (events_prev (add (add (Events_init example_EVENTS) 1 False) 2 False)) []
     (EVENTS (add (add (Events_init example_EVENTS) 1 False) 2 False)) [''warning'']
     (events (add (add (Events_init example_EVENTS) 1 False) 2 False))"
proof -
  have r: "fst (create_alerts example_env (add (add (Events_init example_EVENTS) 1 False) 2 False)
                  [''warning''] None) =
           Inr [stamp ''preDriverDistracted'' ''warning'' alert_preDriverDistracted,
                stamp ''driverDistracted'' ''warning'' alert_driverDistracted]"
    by (simp add: create_alerts_def add_def Let_def Events_init_def example_EVENTS_def
        example_env_def alert_preDriverDistracted_def alert_driverDistracted_def Alert_init_def)
  have d: "distinct [''warning'']" by simp
  have m: "''warning'' \<in> set [''warning'']" by simp
  from create_alerts_all_per_type [OF r d m] show ?thesis by simp
qed

theorem no_priority_selection_counterexample:
  "fst (create_alerts example_env (add (add (Events_init example_EVENTS) 1 False) 2 False)
          [''warning''] None) =
   Inr [stamp ''preDriverDistracted'' ''warning'' alert_preDriverDistracted,
        stamp ''driverDistracted'' ''warning'' alert_driverDistracted]
   \<and> Priority_value (alert_priority alert_preDriverDistracted) = 2
   \<and> Priority_value (alert_priority alert_driverDistracted) = 4
   \<and> Alert_gt (stamp ''driverDistracted'' ''warning'' alert_driverDistracted)
        (stamp ''preDriverDistracted'' ''warning'' alert_preDriverDistracted)"
  by (simp add: create_alerts_def add_def Let_def Events_init_def example_EVENTS_def
      example_env_def alert_preDriverDistracted_def alert_driverDistracted_def Alert_init_def
      Alert_gt_def stamp_def)

text \<open>
  Claim C1, as amended. For an event \<open>e\<close> of \<open>events\<close> and a requested event type \<open>et\<close> for
  which the catalog has an alert, the alert, stamped with its origin, is in the result
  of \<open>create_alerts\<close> exactly if \<open>DT_CTRL * (events_prev[e] + 1) \<ge> creation_delay\<close>; the
  count of the current tick is included. With a delay of 0.3 s and ticks of 0.01 s the
  alert is absent while \<open>events_prev[e]\<close> is below 29 and present from 29 on.
\<close>

theorem create_alerts_delay:
  assumes "fst (create_alerts env s ets args) = Inr ret"
    and "e \<in> set (events s)" and "et \<in> set ets"
    and "EVENTS s e = Some m" and "m et = Some tmpl"
    and "(case tmpl of Fixed a \<Rightarrow> Inr a
          | Callback f \<Rightarrow> f (case args of None \<Rightarrow> [] | Some a \<Rightarrow> a)) = Inr alert"
    and "events_prev s e = Some n" and "EVENT_NAME env e = Some nm"
    and "inj_on (EVENT_NAME env) (set (events s))"
  shows "stamp nm et alert \<in> set ret \<longleftrightarrow> DT_CTRL env * (of_int n + 1) \<ge> creation_delay alert"
proof -
  let ?args = "case args of None \<Rightarrow> [] | Some a \<Rightarrow> a"
  have ret: "ret = all_candidates env (events_prev s) ?args (EVENTS s) ets (events s)"
    using assms(1) by (rule create_alerts_Inr)
  show ?thesis
  proof
    assume pass: "DT_CTRL env * (of_int n + 1) \<ge> creation_delay alert"
    have "candidate env (events_prev s) ?args m e et = [stamp nm et alert]"
      using assms(5) assms(6) assms(7) assms(8) pass by (simp add: candidate_def)
    then have "stamp nm et alert \<in> set (candidate env (events_prev s) ?args m e et)" by simp
    with assms(2) assms(3) assms(4) show "stamp nm et alert \<in> set ret"
      unfolding ret set_all_candidates by blast
  next
    assume "stamp nm et alert \<in> set ret"
    then obtain e' m' et' where e': "e' \<in> set (events s)" and m': "EVENTS s e' = Some m'"
      and et': "et' \<in> set ets"
      and x: "stamp nm et alert \<in> set (candidate env (events_prev s) ?args m' e' et')"
      unfolding ret set_all_candidates by blast
    from candidate_event_type [OF x] have ee: "et' = et" by (simp add: stamp_def)
    from candidate_alert_type [OF x] obtain nm' where nm': "EVENT_NAME env e' = Some nm'"
      and at: "alert_type (stamp nm et alert) = nm' @ ''/'' @ et'" by blast
    from at ee have "nm' = nm" by (simp add: stamp_def)
    with nm' assms(8) have "EVENT_NAME env e' = EVENT_NAME env e" by simp
    with assms(9) e' assms(2) have "e' = e" by (auto dest: inj_onD)
    with m' assms(4) have "m' = m" by simp
    with x ee \<open>e' = e\<close>
    have x': "stamp nm et alert \<in> set (candidate env (events_prev s) ?args m e et)" by simp
    from candidate_cases [of env "events_prev s" ?args m e et] x'
    obtain tmpl' alert' n' where "m et = Some tmpl'"
      and "(case tmpl' of Fixed a \<Rightarrow> Inr a | Callback f \<Rightarrow> f ?args) = Inr alert'"
      and "events_prev s e = Some n'"
      and "DT_CTRL env * (of_int n' + 1) \<ge> creation_delay alert'"
      by auto
    with assms(5) assms(6) assms(7)
    show "DT_CTRL env * (of_int n + 1) \<ge> creation_delay alert" by simp
  qed
qed

lemma delayed_state_run:
  "fst (create_alerts example_env (delayed_state n) [''permanent''] None) =
   Inr (if (3/10 :: real) \<le> 1/100 * (of_int n + 1)
        then [stamp ''delayed'' ''permanent'' alert_delayed] else [])"
  by (simp add: create_alerts_def delayed_state_def example_EVENTS_def example_env_def
      alert_delayed_def Alert_init_def)

theorem create_alerts_delay_witness:
  "(stamp ''delayed'' ''permanent'' alert_delayed \<in> set [stamp ''delayed'' ''permanent'' alert_delayed]
      \<longleftrightarrow> DT_CTRL example_env * (of_int 29 + 1) \<ge> creation_delay alert_delayed)
   \<and> (stamp ''delayed'' ''permanent'' alert_delayed \<in> set []
      \<longleftrightarrow> DT_CTRL example_env * (of_int 28 + 1) \<ge> creation_delay alert_delayed)"
proof -
  have r29: "fst (create_alerts example_env (delayed_state 29) [''permanent''] None) =
             Inr [stamp ''delayed'' ''permanent'' alert_delayed]"
    by (simp add: delayed_state_run)
  have r28: "fst (create_alerts example_env (delayed_state 28) [''permanent''] None) = Inr []"
    by (simp add: delayed_state_run)
  have e: "\<And>n. 3 \<in> set (events (delayed_state n))" by (simp add: delayed_state_def)
  have t: "''permanent'' \<in> set [''permanent'']" by simp
  have c: "\<And>n. EVENTS (delayed_state n) 3 = Some [''permanent'' \<mapsto> Fixed alert_delayed]"
    by (simp add: delayed_state_def example_EVENTS_def)
  have l: "[''permanent'' \<mapsto> (Fixed alert_delayed :: nat template)] ''permanent'' =
           Some (Fixed alert_delayed)"
    by simp
  have v: "(case (Fixed alert_delayed :: nat template) of Fixed a \<Rightarrow> Inr a
           | Callback f \<Rightarrow> f (case None of None \<Rightarrow> [] | Some a \<Rightarrow> a)) = Inr alert_delayed"
    by simp
  have p: "\<And>n. events_prev (delayed_state n) 3 = Some n" by (simp add: delayed_state_def)
  have nm: "EVENT_NAME example_env 3 = Some ''delayed''" by (simp add: example_env_def)
  have i: "\<And>n. inj_on (EVENT_NAME example_env) (set (events (delayed_state n)))"
    by (simp add: delayed_state_def)
  from create_alerts_delay [OF r29 e t c l v p nm i] create_alerts_delay [OF r28 e t c l v p nm i]
  show ?thesis by simp
qed

theorem delay_counts_current_tick_counterexample:
  "fst (create_alerts example_env (delayed_state 29) [''permanent''] None) =
     Inr [stamp ''delayed'' ''permanent'' alert_delayed]
   \<and> events_prev (delayed_state 29) 3 = Some 29
   \<and> \<not> (of_int 29 * DT_CTRL example_env \<ge> creation_delay alert_delayed)"
  by (simp add: delayed_state_run)
     (simp add: delayed_state_def example_env_def alert_delayed_def Alert_init_def)

end
